theory Spec2Isabelle
  imports Main
begin

section \<open>The in-memory cache of the save-file routes\<close>

text \<open>
  The route module keeps one module-level object \<^verbatim>\<open>cache\<close> and three functions over it,
  \<^verbatim>\<open>getCache\<close>, \<^verbatim>\<open>setCache\<close> and \<^verbatim>\<open>invalidateCache\<close>. The object is modelled as a map from
  property names to entries and is passed explicitly: each function takes the cache and
  returns the cache it leaves behind. \<^verbatim>\<open>Date.now()\<close> is an integer number of milliseconds
  and is an explicit argument \<open>now\<close>. Calls of the logger and of \<^verbatim>\<open>console\<close> leave the cache
  alone and are not modelled.

  The map covers the own properties of the object. Every key the routes build starts with
  \<^verbatim>\<open>user:\<close>, so no key names a property inherited from \<^verbatim>\<open>Object.prototype\<close>.
\<close>

subsection \<open>Values and entries\<close>

text \<open>
  A cached payload is whatever the caller hands to \<^verbatim>\<open>setCache\<close>. \<^verbatim>\<open>getCache\<close> returns either
  the payload or \<^verbatim>\<open>null\<close>, so the value type has \<^verbatim>\<open>null\<close> in it. \<open>Object\<close> stands for
  an array or object, which JavaScript treats as truthy even when it is empty.
\<close>

datatype 'v jsval = Null | Object 'v


record 'v entry =
  data :: "'v jsval"
  timestamp :: int

type_synonym 'v cache = "string \<rightharpoonup> 'v entry"

definition CACHE_TTL_MS :: int where
  "CACHE_TTL_MS = 5 * 60 * 1000"

subsection \<open>The three cache functions\<close>

definition getCache :: "int \<Rightarrow> string \<Rightarrow> 'v cache \<Rightarrow> 'v jsval \<times> 'v cache" where
  "getCache now key cache =
     (case cache key of
        None \<Rightarrow> (Null, cache)
      | Some entry \<Rightarrow>
          if now - timestamp entry < CACHE_TTL_MS then (data entry, cache)
          else (Null, cache(key := None)))"

definition setCache :: "int \<Rightarrow> string \<Rightarrow> 'v jsval \<Rightarrow> 'v cache \<Rightarrow> 'v cache" where
  "setCache now key d cache = cache(key \<mapsto> \<lparr>data = d, timestamp = now\<rparr>)"

definition invalidateCache :: "string \<Rightarrow> 'v cache \<Rightarrow> 'v cache" where
  "invalidateCache key cache =
     (case cache key of
        None \<Rightarrow> cache
      | Some entry \<Rightarrow> cache(key := None))"

subsection \<open>Sequences of cache calls\<close>

text \<open>
  The routes call the three functions in whatever order requests arrive. A trace is a list
  of calls, each with the clock reading at which it runs; \<open>run\<close> performs them in order and
  returns the cache they leave.
\<close>

datatype 'v call = Get string | Set string "'v jsval" | Invalidate string

fun key_of :: "'v call \<Rightarrow> string" where
  "key_of (Get k) = k"
| "key_of (Set k d) = k"
| "key_of (Invalidate k) = k"

fun is_read :: "'v call \<Rightarrow> bool" where
  "is_read (Get k) = True"
| "is_read (Set k d) = False"
| "is_read (Invalidate k) = False"

fun perform :: "int \<Rightarrow> 'v call \<Rightarrow> 'v cache \<Rightarrow> 'v cache" where
  "perform now (Get k) cache = snd (getCache now k cache)"
| "perform now (Set k d) cache = setCache now k d cache"
| "perform now (Invalidate k) cache = invalidateCache k cache"

fun run :: "(int \<times> 'v call) list \<Rightarrow> 'v cache \<Rightarrow> 'v cache" where
  "run [] cache = cache"
| "run ((now, c) # cs) cache = run cs (perform now c cache)"

section \<open>The routes that use the cache\<close>





definition cacheKey :: "string \<Rightarrow> string" where
  "cacheKey user_id = ''user:'' @ user_id @ '':saves''"

subsection \<open>GET / : list the user's save files\<close>



subsection \<open>POST /upload : store a save file\<close>





subsection \<open>DELETE /:fileName : remove a save file\<close>





section \<open>The cache as the specification describes it\<close>

text \<open>
  The specification describes a cache with one option, \<^verbatim>\<open>ttlMs\<close>, the lifetime of an entry
  in milliseconds, 300000 unless set otherwise: \<^verbatim>\<open>get\<close> returns the stored value if an
  entry exists for the key and \<^verbatim>\<open>now - storedAt < TTL\<close>, and otherwise returns absent and
  removes the entry if there was one. \<open>spec_get\<close> is that reading, written from the
  specification's words and not from the source, to compare \<open>getCache\<close> with.
\<close>

definition spec_get :: "int \<Rightarrow> int \<Rightarrow> string \<Rightarrow> 'v cache \<Rightarrow> 'v jsval \<times> 'v cache" where
  "spec_get ttlMs now key cache =
     (case cache key of
        None \<Rightarrow> (Null, cache)
      | Some entry \<Rightarrow>
          if now - timestamp entry < ttlMs then (data entry, cache)
          else (Null, cache(key := None)))"

section \<open>Properties of the cache\<close>

subsection \<open>Basic facts\<close>

lemma CACHE_TTL_MS_value: "CACHE_TTL_MS = 300000"
  by (simp add: CACHE_TTL_MS_def)


lemma getCache_fresh:
  "cache key = Some e \<Longrightarrow> now - timestamp e < CACHE_TTL_MS \<Longrightarrow>
   getCache now key cache = (data e, cache)"
  by (simp add: getCache_def)

lemma getCache_stale:
  "cache key = Some e \<Longrightarrow> CACHE_TTL_MS \<le> now - timestamp e \<Longrightarrow>
   getCache now key cache = (Null, cache(key := None))"
  by (simp add: getCache_def)

lemma setCache_same: "setCache t key d cache key = Some \<lparr>data = d, timestamp = t\<rparr>"
  by (simp add: setCache_def)

lemma setCache_other: "k' \<noteq> key \<Longrightarrow> setCache t key d cache k' = cache k'"
  by (simp add: setCache_def)

lemma invalidateCache_eq: "invalidateCache key cache = cache(key := None)"
  by (auto simp: invalidateCache_def split: option.splits)


subsection \<open>Traces\<close>

lemma perform_other: "key_of c \<noteq> k \<Longrightarrow> perform now c cache k = cache k"
  by (cases c) (auto simp: getCache_def setCache_def invalidateCache_eq split: option.splits)

lemma run_other:
  "\<forall>(now, c) \<in> set cs. key_of c \<noteq> k \<Longrightarrow> run cs cache k = cache k"
  by (induction cs arbitrary: cache) (auto simp: perform_other)

lemma perform_fresh_read:
  "cache k = Some e \<Longrightarrow> is_read c \<Longrightarrow>
   (key_of c = k \<longrightarrow> now - timestamp e < CACHE_TTL_MS) \<Longrightarrow>
   perform now c cache k = Some e"
  by (cases c) (auto simp: getCache_def split: option.splits)

lemma perform_read_cases:
  "is_read c \<Longrightarrow> perform now c cache k = cache k \<or> perform now c cache k = None"
  by (cases c) (auto simp: getCache_def split: option.splits)

lemma run_fresh_reads:
  "cache k = Some e \<Longrightarrow>
   \<forall>(now, c) \<in> set cs. is_read c \<and> (key_of c = k \<longrightarrow> now - timestamp e < CACHE_TTL_MS) \<Longrightarrow>
   run cs cache k = Some e"
proof (induction cs arbitrary: cache)
  case Nil
  then show ?case by simp
next
  case (Cons a cs)
  obtain now c where a: "a = (now, c)" by (cases a)
  from Cons.prems a have "perform now c cache k = Some e"
    by (intro perform_fresh_read) auto
  with Cons.prems a show ?case
    by (auto intro!: Cons.IH)
qed

lemma run_reads_cases:
  "\<forall>(now, c) \<in> set cs. is_read c \<Longrightarrow> run cs cache k = cache k \<or> run cs cache k = None"
proof (induction cs arbitrary: cache)
  case Nil
  then show ?case by simp
next
  case (Cons a cs)
  obtain now c where a: "a = (now, c)" by (cases a)
  with Cons.prems have r: "is_read c" and rest: "\<forall>(now, c) \<in> set cs. is_read c" by auto
  from Cons.IH [OF rest, of "perform now c cache"] perform_read_cases [OF r, of now cache k] a
  show ?case by auto
qed

subsection \<open>Expiry and hits\<close>

text \<open>
  C1. After \<open>set(k, v)\<close> at time \<open>t\<close>, a \<open>get(k)\<close> at exactly \<open>t + TTL\<close> returns \<^verbatim>\<open>null\<close>
  (absent): the comparison \<^verbatim>\<open>Date.now() - entry.timestamp < CACHE_TTL_MS\<close> is false when the
  elapsed time equals the TTL, so the boundary counts as expired and the entry is deleted.
\<close>

theorem getCache_boundary_expired:
  "getCache (t + CACHE_TTL_MS) k (setCache t k v cache)
     = (Null, (setCache t k v cache)(k := None))"
  by (simp add: getCache_def setCache_def)

text \<open>
  C2. After \<open>set(k, v)\<close> at time \<open>t\<close>, and then any calls \<open>cs\<close> none of which is on the key
  \<open>k\<close>, a \<open>get(k)\<close> at a time \<open>t'\<close> with \<open>t \<le> t'\<close> and \<open>t' - t < TTL\<close> returns exactly \<open>v\<close>
  and leaves the cache as it found it.
\<close>

theorem getCache_fresh_hit:
  assumes "t \<le> t'" and "t' - t < CACHE_TTL_MS"
    and "\<forall>(s, c) \<in> set cs. key_of c \<noteq> k"
  shows "getCache t' k (run cs (setCache t k v cache)) = (v, run cs (setCache t k v cache))"
proof -
  from assms(3) have "run cs (setCache t k v cache) k = setCache t k v cache k"
    by (rule run_other)
  then have "run cs (setCache t k v cache) k = Some \<lparr>data = v, timestamp = t\<rparr>"
    by (simp add: setCache_same)
  with assms(2) show ?thesis
    by (simp add: getCache_def)
qed

theorem getCache_fresh_hit_witness:
  "getCache 100000 ''user:42:saves''
     (run [(40000, Set ''user:7:saves'' Null), (50000, Get ''user:7:saves''),
           (60000, Invalidate ''user:7:saves'')]
        (setCache 0 ''user:42:saves'' (Object [''fileA'']) Map.empty))
   = (Object [''fileA''],
      run [(40000, Set ''user:7:saves'' Null), (50000, Get ''user:7:saves''),
           (60000, Invalidate ''user:7:saves'')]
        (setCache 0 ''user:42:saves'' (Object [''fileA'']) Map.empty))"
proof -
  have h1: "(0::int) \<le> 100000" by simp
  have h2: "(100000::int) - 0 < CACHE_TTL_MS" by (simp add: CACHE_TTL_MS_def)
  have h3: "\<forall>(s, c) \<in> set [(40000::int, Set ''user:7:saves'' (Null :: string list jsval)),
              (50000, Get ''user:7:saves''), (60000, Invalidate ''user:7:saves'')].
            key_of c \<noteq> ''user:42:saves''"
    by simp
  from getCache_fresh_hit [OF h1 h2 h3] show ?thesis .
qed

text \<open>
  C5. On the absent path \<open>get(k)\<close> does exactly the lazy clean-up: when an entry for \<open>k\<close>
  exists and has expired, it returns \<^verbatim>\<open>null\<close> and deletes that entry and nothing else, so the
  cache has no entry for \<open>k\<close> afterwards; when there is no entry for \<open>k\<close>, it returns
  \<^verbatim>\<open>null\<close> and leaves the whole cache as it was.
\<close>

theorem getCache_lazy_cleanup:
  "(cache k = Some e \<and> CACHE_TTL_MS \<le> now - timestamp e \<longrightarrow>
      getCache now k cache = (Null, cache(k := None)) \<and>
      snd (getCache now k cache) k = None \<and>
      (\<forall>k'. k' \<noteq> k \<longrightarrow> snd (getCache now k cache) k' = cache k')) \<and>
   (cache k = None \<longrightarrow> getCache now k cache = (Null, cache))"
  by (simp add: getCache_def)

theorem getCache_lazy_cleanup_witness:
  "getCache 300001 ''user:42:saves'' (setCache 0 ''user:42:saves'' (Object [''fileA'']) Map.empty)
     = (Null, (setCache 0 ''user:42:saves'' (Object [''fileA'']) Map.empty)(''user:42:saves'' := None)) \<and>
   snd (getCache 300001 ''user:42:saves''
          (setCache 0 ''user:42:saves'' (Object [''fileA'']) Map.empty)) ''user:42:saves'' = None \<and>
   getCache 7 ''user:42:saves'' (Map.empty :: string list cache) = (Null, Map.empty)"
  using
    getCache_lazy_cleanup [of "setCache 0 ''user:42:saves'' (Object [''fileA'']) Map.empty"
      "''user:42:saves''" "\<lparr>data = Object [''fileA''], timestamp = 0\<rparr>" 300001]
    getCache_lazy_cleanup [of "Map.empty :: string list cache" "''user:42:saves''" undefined 7]
  by (simp add: setCache_def CACHE_TTL_MS_def)

text \<open>
  C10. A \<open>get\<close> that hits leaves the cache, and so the entry and its timestamp, as they
  were. Hence, after \<open>set(k, v)\<close> at time \<open>t\<close> and any number of reads (of any keys, at any
  times), the entry for \<open>k\<close> is either still \<open>v\<close> stamped \<open>t\<close> or gone, and a \<open>get(k)\<close> whose
  clock is \<open>TTL\<close> or more past \<open>t\<close> returns \<^verbatim>\<open>null\<close>; if the reads of \<open>k\<close> were all fresh, the
  entry is still \<open>v\<close> stamped \<open>t\<close> and a later \<open>get(k)\<close> at \<open>t'\<close> returns \<open>v\<close> exactly when
  \<open>t' - t < TTL\<close>. The deadline is that of the set, however many reads came in between.
\<close>

theorem getCache_hit_keeps_timestamp:
  "(cache k = Some e \<and> now - timestamp e < CACHE_TTL_MS \<longrightarrow>
      getCache now k cache = (data e, cache)) \<and>
   ((\<forall>(s, c) \<in> set cs. is_read c) \<longrightarrow>
      (run cs (setCache t k v cache) k = Some \<lparr>data = v, timestamp = t\<rparr> \<or>
       run cs (setCache t k v cache) k = None) \<and>
      (CACHE_TTL_MS \<le> t' - t \<longrightarrow> fst (getCache t' k (run cs (setCache t k v cache))) = Null)) \<and>
   ((\<forall>(s, c) \<in> set cs. is_read c \<and> (key_of c = k \<longrightarrow> s - t < CACHE_TTL_MS)) \<longrightarrow>
      run cs (setCache t k v cache) k = Some \<lparr>data = v, timestamp = t\<rparr> \<and>
      fst (getCache t' k (run cs (setCache t k v cache)))
        = (if t' - t < CACHE_TTL_MS then v else Null))"
proof (intro conjI impI)
  assume "cache k = Some e \<and> now - timestamp e < CACHE_TTL_MS"
  then show "getCache now k cache = (data e, cache)"
    by (simp add: getCache_fresh)
next
  assume "\<forall>(s, c) \<in> set cs. is_read c"
  from run_reads_cases [OF this, of "setCache t k v cache" k]
  show "run cs (setCache t k v cache) k = Some \<lparr>data = v, timestamp = t\<rparr> \<or>
        run cs (setCache t k v cache) k = None"
    by (simp add: setCache_same)
next
  assume reads: "\<forall>(s, c) \<in> set cs. is_read c" and late: "CACHE_TTL_MS \<le> t' - t"
  from run_reads_cases [OF reads, of "setCache t k v cache" k]
  have "run cs (setCache t k v cache) k = Some \<lparr>data = v, timestamp = t\<rparr> \<or>
        run cs (setCache t k v cache) k = None"
    by (simp add: setCache_same)
  with late show "fst (getCache t' k (run cs (setCache t k v cache))) = Null"
    by (auto simp: getCache_def)
next
  assume fresh: "\<forall>(s, c) \<in> set cs. is_read c \<and> (key_of c = k \<longrightarrow> s - t < CACHE_TTL_MS)"
  from run_fresh_reads [of "setCache t k v cache" k "\<lparr>data = v, timestamp = t\<rparr>" cs] fresh
  show kept: "run cs (setCache t k v cache) k = Some \<lparr>data = v, timestamp = t\<rparr>"
    by (simp add: setCache_same)
  then show "fst (getCache t' k (run cs (setCache t k v cache)))
               = (if t' - t < CACHE_TTL_MS then v else Null)"
    by (simp add: getCache_def)
qed

theorem getCache_hit_keeps_timestamp_witness:
  "getCache 100000 ''user:42:saves'' (setCache 0 ''user:42:saves'' (Object [''fileA'']) Map.empty)
     = (Object [''fileA''], setCache 0 ''user:42:saves'' (Object [''fileA'']) Map.empty) \<and>
   run [(100000, Get ''user:42:saves''), (200000, Get ''user:7:saves''),
        (299999, Get ''user:42:saves'')]
       (setCache 0 ''user:42:saves'' (Object [''fileA'']) Map.empty) ''user:42:saves''
     = Some \<lparr>data = Object [''fileA''], timestamp = 0\<rparr> \<and>
   fst (getCache 300000 ''user:42:saves''
          (run [(100000, Get ''user:42:saves''), (200000, Get ''user:7:saves''),
                (299999, Get ''user:42:saves'')]
             (setCache 0 ''user:42:saves'' (Object [''fileA'']) Map.empty)))
     = Null"
proof -
  let ?k = "''user:42:saves''"
  let ?v = "Object [''fileA''] :: string list jsval"
  let ?e = "\<lparr>data = ?v, timestamp = 0\<rparr>"
  let ?cs = "[(100000::int, Get ?k :: string list call), (200000, Get ''user:7:saves''),
              (299999, Get ?k)]"
  have h1: "setCache 0 ?k ?v Map.empty ?k = Some ?e \<and> 100000 - timestamp ?e < CACHE_TTL_MS"
    by (simp add: setCache_def CACHE_TTL_MS_def)
  have h3: "\<forall>(s, c) \<in> set ?cs. is_read c \<and> (key_of c = ?k \<longrightarrow> s - 0 < CACHE_TTL_MS)"
    by (simp add: CACHE_TTL_MS_def)
  have late: "\<not> (300000::int) - 0 < CACHE_TTL_MS"
    by (simp add: CACHE_TTL_MS_def)
  from getCache_hit_keeps_timestamp [of "setCache 0 ?k ?v Map.empty" ?k ?e 100000] h1
  have c1: "getCache 100000 ?k (setCache 0 ?k ?v Map.empty)
      = (data ?e, setCache 0 ?k ?v Map.empty)"
    by blast
  from getCache_hit_keeps_timestamp [of Map.empty ?k ?e 0 ?cs 0 ?v 300000] h3
  have c3: "run ?cs (setCache 0 ?k ?v Map.empty) ?k = Some ?e \<and>
      fst (getCache 300000 ?k (run ?cs (setCache 0 ?k ?v Map.empty)))
        = (if (300000::int) - 0 < CACHE_TTL_MS then ?v else Null)"
    by blast
  from c1 c3 late show ?thesis by simp
qed

subsection \<open>Writes and invalidation\<close>

text \<open>
  C6. \<open>set(k, v1)\<close> followed by \<open>set(k, v2)\<close> leaves the cache exactly as \<open>set(k, v2)\<close> alone
  would: whatever entry \<open>k\<close> had, expired or not, is replaced, the entry holds \<open>v2\<close> with the
  time of the second set, and a \<open>get(k)\<close> before that entry expires returns \<open>v2\<close>.
\<close>

theorem setCache_overwrites:
  "setCache t2 k v2 (setCache t1 k v1 cache) = setCache t2 k v2 cache \<and>
   setCache t2 k v2 cache k = Some \<lparr>data = v2, timestamp = t2\<rparr> \<and>
   (t3 - t2 < CACHE_TTL_MS \<longrightarrow>
      getCache t3 k (setCache t2 k v2 (setCache t1 k v1 cache)) = (v2, setCache t2 k v2 cache))"
  by (simp add: setCache_def getCache_def)

theorem setCache_overwrites_witness:
  "getCache 400000 ''user:42:saves''
     (setCache 300001 ''user:42:saves'' (Object [''fileA'', ''fileB''])
        (setCache 0 ''user:42:saves'' (Object [''fileA'']) Map.empty))
   = (Object [''fileA'', ''fileB''],
      setCache 300001 ''user:42:saves'' (Object [''fileA'', ''fileB'']) Map.empty)"
proof -
  have h: "(400000::int) - 300001 < CACHE_TTL_MS"
    by (simp add: CACHE_TTL_MS_def)
  from setCache_overwrites [of 300001 "''user:42:saves''" "Object [''fileA'', ''fileB'']" 0
      "Object [''fileA'']" Map.empty 400000] h
  show ?thesis by blast
qed

text \<open>
  C7. \<open>invalidate(k)\<close> removes the entry for \<open>k\<close> and nothing else; when \<open>k\<close> has no entry it
  leaves the cache as it was; doing it twice gives the same cache as doing it once. It is
  a total function: there is no input on which it fails.
\<close>

theorem invalidateCache_idempotent:
  "invalidateCache k cache = cache(k := None) \<and>
   invalidateCache k cache k = None \<and>
   (cache k = None \<longrightarrow> invalidateCache k cache = cache) \<and>
   invalidateCache k (invalidateCache k cache) = invalidateCache k cache"
  by (auto simp: invalidateCache_eq)

theorem invalidateCache_idempotent_witness:
  "invalidateCache ''user:42:saves'' (Map.empty :: string list cache) = Map.empty \<and>
   invalidateCache ''user:42:saves''
      (setCache 0 ''user:42:saves'' (Object [''fileA'']) Map.empty) ''user:42:saves'' = None"
proof -
  have h: "(Map.empty :: string list cache) ''user:42:saves'' = None" by simp
  from invalidateCache_idempotent [of "''user:42:saves''" "Map.empty :: string list cache"] h
  have "invalidateCache ''user:42:saves'' (Map.empty :: string list cache) = Map.empty"
    by blast
  moreover from invalidateCache_idempotent
    [of "''user:42:saves''" "setCache 0 ''user:42:saves'' (Object [''fileA'']) Map.empty"]
  have "invalidateCache ''user:42:saves''
      (setCache 0 ''user:42:saves'' (Object [''fileA'']) Map.empty) ''user:42:saves'' = None"
    by blast
  ultimately show ?thesis by simp
qed

text \<open>
  C8. For distinct keys \<open>k1\<close> and \<open>k2\<close>, \<open>set(k1, v1)\<close> leaves the entry, or the absence, of
  \<open>k2\<close> as it was, so \<open>get(k2)\<close> returns the same value after the write as before it; the
  write and the read commute.
\<close>

theorem setCache_isolation:
  assumes "k1 \<noteq> k2"
  shows "setCache t k1 v1 cache k2 = cache k2 \<and>
         fst (getCache now k2 (setCache t k1 v1 cache)) = fst (getCache now k2 cache) \<and>
         snd (getCache now k2 (setCache t k1 v1 cache))
           = setCache t k1 v1 (snd (getCache now k2 cache))"
  using assms
  by (auto simp: getCache_def setCache_def fun_upd_twist split: option.splits)

theorem setCache_isolation_witness:
  "fst (getCache 10 ''user:7:saves''
          (setCache 5 ''user:42:saves'' (Object [''fileB''])
             (setCache 0 ''user:7:saves'' (Object [''fileA'']) Map.empty)))
   = fst (getCache 10 ''user:7:saves'' (setCache 0 ''user:7:saves'' (Object [''fileA'']) Map.empty))"
proof -
  have h: "''user:42:saves'' \<noteq> ''user:7:saves''" by simp
  from setCache_isolation [OF h, of 5 "Object [''fileB'']"
      "setCache 0 ''user:7:saves'' (Object [''fileA'']) Map.empty" 10]
  show ?thesis by blast
qed

section \<open>Properties of the routes\<close>



lemma cacheKey_prefix: "take 5 (cacheKey uid) = ''user:''"
  by (simp add: cacheKey_def)

lemma cacheKey_inject: "cacheKey a = cacheKey b \<longleftrightarrow> a = b"
  by (simp add: cacheKey_def)

lemma cacheKey_other: "uid' \<noteq> uid \<Longrightarrow> cacheKey uid' \<noteq> cacheKey uid"
  by (simp add: cacheKey_def)










section \<open>The lifetime of an entry\<close>

text \<open>
  C9, as the code has it. The lifetime of an entry is the module constant
  \<^verbatim>\<open>CACHE_TTL_MS = 5 * 60 * 1000\<close>, that is 300000 ms. \<open>getCache\<close> is the specification's
  \<open>get\<close> at \<open>ttlMs = 300000\<close> and has no other input than the clock, the key and the cache:
  for every key and every entry the entry is live exactly while
  \<open>now - timestamp < 300000\<close>, so one constant holds for all keys and no entry carries a
  lifetime of its own.
\<close>

theorem cache_ttl_fixed_constant:
  "CACHE_TTL_MS = 300000 \<and>
   getCache now key cache = spec_get 300000 now key cache \<and>
   getCache now key (cache(key \<mapsto> e))
     = (if now - timestamp e < 300000 then (data e, cache(key \<mapsto> e))
        else (Null, cache(key := None)))"
  by (simp add: getCache_def spec_get_def CACHE_TTL_MS_value split: option.splits)

text \<open>
  C9, as the claim states it, fails: were \<^verbatim>\<open>ttlMs\<close> an option the cache recognised, setting
  it to 1000 would make an entry written at time 0 absent at time 2000, as \<open>spec_get 1000\<close>
  reports; \<open>getCache\<close> still returns the stored value there.
\<close>

theorem cache_ttl_option_counterexample:
  "fst (spec_get 1000 2000 ''user:42:saves''
          (setCache 0 ''user:42:saves'' (Object [''fileA'']) Map.empty)) = Null \<and>
   fst (getCache 2000 ''user:42:saves''
          (setCache 0 ''user:42:saves'' (Object [''fileA'']) Map.empty)) = Object [''fileA'']"
  by (simp add: getCache_def spec_get_def setCache_def CACHE_TTL_MS_def)

end
